theory Spec2Isabelle
  imports Complex_Main
begin

section \<open>Statistical comparison engine of \<open>scripts/analyze_results.py\<close>\<close>

text \<open>
  The module compares a baseline sample with an ESM sample of one metric. Python's
  \<open>float\<close> is modelled by \<^typ>\<open>real\<close>: every arithmetic operation is the exact one, so
  rounding, overflow and NaN are outside this model. Rounding decides one property, the
  place of the mean between the minimum and the maximum of a sample; for it
  \<open>calculate_stats\<close> is given a second time, as \<open>calculate_stats_double\<close>, with every
  operation rounded to the nearest binary64 number. What the interpreter raises is a
  value of \<open>py_error\<close>: a float division whose divisor is zero raises
  \<open>ZeroDivisionError\<close>, \<open>math.sqrt\<close> of a negative number and \<open>min\<close>/\<open>max\<close> of an empty
  list raise \<open>ValueError\<close>, a missing dictionary key raises \<open>KeyError\<close>.
\<close>

subsection \<open>Interpreter primitives\<close>

datatype py_error = ZeroDivisionError | ValueError | KeyError

type_synonym 'a result = "py_error + 'a"

definition bind_res :: "'a result \<Rightarrow> ('a \<Rightarrow> 'b result) \<Rightarrow> 'b result" where
  "bind_res m f = (case m of Inl e \<Rightarrow> Inl e | Inr v \<Rightarrow> f v)"

definition py_div :: "real \<Rightarrow> real \<Rightarrow> real result" where
  "py_div a b = (if b = 0 then Inl ZeroDivisionError else Inr (a / b))"

definition py_sqrt :: "real \<Rightarrow> real result" where
  "py_sqrt x = (if x < 0 then Inl ValueError else Inr (sqrt x))"

text \<open>\<open>min(values)\<close> and \<open>max(values)\<close> scan the list and keep the first extreme element.\<close>

definition py_min :: "real list \<Rightarrow> real result" where
  "py_min values =
     (case values of
        [] \<Rightarrow> Inl ValueError
      | x # xs \<Rightarrow> Inr (fold (\<lambda>y m. if y < m then y else m) xs x))"

definition py_max :: "real list \<Rightarrow> real result" where
  "py_max values =
     (case values of
        [] \<Rightarrow> Inl ValueError
      | x # xs \<Rightarrow> Inr (fold (\<lambda>y m. if y > m then y else m) xs x))"

subsection \<open>Descriptive statistics\<close>

text \<open>The dataclass \<open>Statistics\<close>; the fields \<open>n\<close>, \<open>mean\<close> and \<open>std\<close> carry the prefix \<open>s_\<close>.\<close>

record Statistics =
  s_n :: nat
  s_mean :: real
  s_std :: real
  min_val :: real
  max_val :: real
  ci_lower :: real
  ci_upper :: real

text \<open>\<open>calculate_stats\<close>: \<open>None\<close> for the empty sample, otherwise the summary.\<close>

definition calculate_stats :: "real list \<Rightarrow> Statistics option result" where
  "calculate_stats values =
     (if values = [] then Inr None
      else
        let n = length values in
        bind_res (py_div (sum_list values) (real n)) (\<lambda>mean.
        if n < 2 then
          bind_res (py_min values) (\<lambda>mn.
          bind_res (py_max values) (\<lambda>mx.
          Inr (Some \<lparr>s_n = n, s_mean = mean, s_std = 0,
                     min_val = mn, max_val = mx,
                     ci_lower = mean, ci_upper = mean\<rparr>)))
        else
          bind_res (py_div (sum_list (map (\<lambda>x. (x - mean) ^ 2) values)) (real n - 1)) (\<lambda>variance.
          bind_res (py_sqrt variance) (\<lambda>std.
          let t_value = (if n > 30 then 1.96 else 2.0) in
          bind_res (py_sqrt (real n)) (\<lambda>root_n.
          bind_res (py_div std root_n) (\<lambda>q.
          let margin = t_value * q in
          bind_res (py_min values) (\<lambda>mn.
          bind_res (py_max values) (\<lambda>mx.
          Inr (Some \<lparr>s_n = n, s_mean = mean, s_std = std,
                     min_val = mn, max_val = mx,
                     ci_lower = mean - margin, ci_upper = mean + margin\<rparr>)))))))))"

subsection \<open>Welch's t-test\<close>

text \<open>
  \<open>math.erf\<close> is a function of the C library, not of this module: it is the parameter
  \<open>erf\<close> of \<open>normal_cdf\<close> and of every function that reaches it.
\<close>

definition normal_cdf :: "(real \<Rightarrow> real) \<Rightarrow> real \<Rightarrow> real" where
  "normal_cdf erf x = 0.5 * (1 + erf (x / sqrt 2))"

text \<open>
  \<open>welch_t_test\<close> returns the pair (t-statistic, p-value). The Welch-Satterthwaite
  degrees of freedom \<open>df\<close> are computed after the t-statistic, as in the source, and
  never read again.
\<close>

definition welch_t_test :: "(real \<Rightarrow> real) \<Rightarrow> real list \<Rightarrow> real list \<Rightarrow> (real \<times> real) result" where
  "welch_t_test erf sample1 sample2 =
     (let n1 = length sample1; n2 = length sample2 in
      if n1 < 2 \<or> n2 < 2 then Inr (0.0, 1.0)
      else
        bind_res (py_div (sum_list sample1) (real n1)) (\<lambda>mean1.
        bind_res (py_div (sum_list sample2) (real n2)) (\<lambda>mean2.
        bind_res (py_div (sum_list (map (\<lambda>x. (x - mean1) ^ 2) sample1)) (real n1 - 1)) (\<lambda>var1.
        bind_res (py_div (sum_list (map (\<lambda>x. (x - mean2) ^ 2) sample2)) (real n2 - 1)) (\<lambda>var2.
        bind_res (py_div var1 (real n1)) (\<lambda>a1.
        bind_res (py_div var2 (real n2)) (\<lambda>a2.
        bind_res (py_sqrt (a1 + a2)) (\<lambda>se.
        if se = 0 then Inr (0.0, 1.0)
        else
          bind_res (py_div (mean1 - mean2) se) (\<lambda>t_stat.
          bind_res (py_div var1 (real n1)) (\<lambda>b1.
          bind_res (py_div var2 (real n2)) (\<lambda>b2.
          let num = (b1 + b2) ^ 2 in
          bind_res (py_div var1 (real n1)) (\<lambda>c1.
          bind_res (py_div (c1 ^ 2) (real n1 - 1)) (\<lambda>d1.
          bind_res (py_div var2 (real n2)) (\<lambda>c2.
          bind_res (py_div (c2 ^ 2) (real n2 - 1)) (\<lambda>d2.
          let denom = d1 + d2 in
          bind_res (if denom > 0 then py_div num denom else Inr 1) (\<lambda>df.
          let z = \<bar>t_stat\<bar>;
              p_value = 2 * (1 - normal_cdf erf z)
          in Inr (t_stat, p_value)))))))))))))))))"

subsection \<open>Cohen's d\<close>

definition cohens_d :: "real list \<Rightarrow> real list \<Rightarrow> real result" where
  "cohens_d sample1 sample2 =
     (let n1 = length sample1; n2 = length sample2 in
      if n1 < 2 \<or> n2 < 2 then Inr 0.0
      else
        bind_res (py_div (sum_list sample1) (real n1)) (\<lambda>mean1.
        bind_res (py_div (sum_list sample2) (real n2)) (\<lambda>mean2.
        bind_res (py_div (sum_list (map (\<lambda>x. (x - mean1) ^ 2) sample1)) (real n1 - 1)) (\<lambda>var1.
        bind_res (py_div (sum_list (map (\<lambda>x. (x - mean2) ^ 2) sample2)) (real n2 - 1)) (\<lambda>var2.
        bind_res (py_div ((real n1 - 1) * var1 + (real n2 - 1) * var2) (real n1 + real n2 - 2)) (\<lambda>pooled_var.
        bind_res (py_sqrt pooled_var) (\<lambda>pooled_std.
        if pooled_std = 0 then Inr 0.0
        else py_div (mean1 - mean2) pooled_std)))))))"

definition effect_size_interpretation :: "real \<Rightarrow> string" where
  "effect_size_interpretation d0 =
     (let d = \<bar>d0\<bar> in
      if d < 0.2 then ''negligible''
      else if d < 0.5 then ''small''
      else if d < 0.8 then ''medium''
      else ''large'')"

subsection \<open>Comparing one metric\<close>

text \<open>
  \<open>analyze_metric\<close> returns a dictionary with string keys. Its values are strings,
  floats, booleans and \<open>Statistics\<close> objects.
\<close>

datatype pyval = PyStr string | PyFloat real | PyBool bool | PyStats Statistics

type_synonym pydict = "string \<rightharpoonup> pyval"

definition analyze_metric ::
  "(real \<Rightarrow> real) \<Rightarrow> real list \<Rightarrow> real list \<Rightarrow> string \<Rightarrow> bool \<Rightarrow> pydict result" where
  "analyze_metric erf baseline_values esm_values metric_name lower_is_better =
     bind_res (calculate_stats baseline_values) (\<lambda>baseline_stats.
     bind_res (calculate_stats esm_values) (\<lambda>esm_stats.
     case (baseline_stats, esm_stats) of
       (Some b, Some e) \<Rightarrow>
         bind_res
           (if lower_is_better then
              bind_res (py_div (s_mean b - s_mean e) (s_mean b)) (\<lambda>q.
              Inr (q * 100, s_mean e < s_mean b))
            else
              bind_res (py_div (s_mean e - s_mean b) (s_mean b)) (\<lambda>q.
              Inr (q * 100, s_mean e > s_mean b)))
           (\<lambda>(improvement, improved).
         bind_res (welch_t_test erf baseline_values esm_values) (\<lambda>(t_stat, p_value).
         bind_res (cohens_d baseline_values esm_values) (\<lambda>d.
         Inr [''metric'' \<mapsto> PyStr metric_name,
              ''baseline'' \<mapsto> PyStats b,
              ''esm'' \<mapsto> PyStats e,
              ''improvement_pct'' \<mapsto> PyFloat improvement,
              ''improved'' \<mapsto> PyBool improved,
              ''t_statistic'' \<mapsto> PyFloat t_stat,
              ''p_value'' \<mapsto> PyFloat p_value,
              ''cohens_d'' \<mapsto> PyFloat d,
              ''effect_size'' \<mapsto> PyStr (effect_size_interpretation d),
              ''significant'' \<mapsto> PyBool (p_value < 0.05)])))
     | _ \<Rightarrow> Inr [''metric'' \<mapsto> PyStr metric_name,
                  ''error'' \<mapsto> PyStr ''Insufficient data'']))"

subsection \<open>The Conclusions section of the report\<close>

text \<open>
  The last part of \<open>generate_report\<close> sorts the metrics into the lists \<open>validated\<close> and
  \<open>refuted\<close>, which it then prints one name per line under the headings
  "Validated claims" and "Unvalidated claims". \<open>truthy\<close> is the truth value Python gives
  an object in a condition; \<open>lookup\<close> is \<open>r[key]\<close>.
\<close>

definition truthy :: "pyval \<Rightarrow> bool" where
  "truthy v =
     (case v of
        PyStr s \<Rightarrow> s \<noteq> []
      | PyFloat x \<Rightarrow> x \<noteq> 0
      | PyBool b \<Rightarrow> b
      | PyStats st \<Rightarrow> True)"

definition lookup :: "pydict \<Rightarrow> string \<Rightarrow> pyval result" where
  "lookup r key = (case r key of None \<Rightarrow> Inl KeyError | Some v \<Rightarrow> Inr v)"

text \<open>One round of the loop \<open>for r in results\<close>, on the pair (validated, refuted).\<close>

definition conclusions_step ::
  "pyval list \<times> pyval list \<Rightarrow> pydict \<Rightarrow> (pyval list \<times> pyval list) result" where
  "conclusions_step st r =
     (case st of (validated, refuted) \<Rightarrow>
        if ''error'' \<in> dom r then Inr (validated, refuted)
        else
          bind_res (lookup r ''significant'') (\<lambda>sig.
          bind_res (if truthy sig then lookup r ''improved'' else Inr sig) (\<lambda>both.
          if truthy both then
            bind_res (lookup r ''metric'') (\<lambda>m. Inr (validated @ [m], refuted))
          else
            bind_res (lookup r ''improved'') (\<lambda>imp.
            if \<not> truthy imp then
              bind_res (lookup r ''metric'') (\<lambda>m. Inr (validated, refuted @ [m]))
            else Inr (validated, refuted)))))"

fun conclusions_loop ::
  "pyval list \<times> pyval list \<Rightarrow> pydict list \<Rightarrow> (pyval list \<times> pyval list) result" where
  "conclusions_loop st [] = Inr st"
| "conclusions_loop st (r # rs) = bind_res (conclusions_step st r) (\<lambda>st'. conclusions_loop st' rs)"

definition generate_report_conclusions :: "pydict list \<Rightarrow> (pyval list \<times> pyval list) result" where
  "generate_report_conclusions results = conclusions_loop ([], []) results"

subsection \<open>Names for the quantities the functions compute inline\<close>

text \<open>
  The source writes the sample mean \<open>sum(sample) / n\<close>, the unbiased variance
  \<open>sum((x - mean) ** 2 for x in sample) / (n - 1)\<close>, the standard error and the pooled
  standard deviation in place wherever it needs them. The lemmas below name these
  quantities to say what the functions return. \<open>math_erf\<close> is the error function that
  \<open>math.erf\<close> approximates, given by its Maclaurin series; it stands for the parameter
  \<open>erf\<close> in statements about concrete samples.
\<close>

definition sample_mean :: "real list \<Rightarrow> real" where
  "sample_mean xs = sum_list xs / real (length xs)"

definition sample_var :: "real list \<Rightarrow> real" where
  "sample_var xs = sum_list (map (\<lambda>x. (x - sample_mean xs) ^ 2) xs) / (real (length xs) - 1)"

definition std_error :: "real list \<Rightarrow> real list \<Rightarrow> real" where
  "std_error s1 s2 = sqrt (sample_var s1 / real (length s1) + sample_var s2 / real (length s2))"

definition pooled_sd :: "real list \<Rightarrow> real list \<Rightarrow> real" where
  "pooled_sd s1 s2 =
     sqrt (((real (length s1) - 1) * sample_var s1 + (real (length s2) - 1) * sample_var s2)
           / (real (length s1) + real (length s2) - 2))"

definition math_erf :: "real \<Rightarrow> real" where
  "math_erf x = 2 / sqrt pi * (\<Sum>k. (- 1) ^ k * x ^ (2 * k + 1) / (fact k * real (2 * k + 1)))"

text \<open>
  The records \<open>generate_report\<close> can read: an error record, or one that has the keys the
  Conclusions section looks up. \<open>is_validated\<close> and \<open>is_refuted\<close> are the two conditions
  of its loop.
\<close>

definition has_keys :: "pydict \<Rightarrow> bool" where
  "has_keys r = (r ''metric'' \<noteq> None \<and> r ''significant'' \<noteq> None \<and> r ''improved'' \<noteq> None)"

definition is_validated :: "pydict \<Rightarrow> bool" where
  "is_validated r = (''error'' \<notin> dom r \<and> truthy (the (r ''significant'')) \<and> truthy (the (r ''improved'')))"

definition is_refuted :: "pydict \<Rightarrow> bool" where
  "is_refuted r = (''error'' \<notin> dom r \<and> \<not> truthy (the (r ''improved'')))"

subsection \<open>\<open>calculate_stats\<close> in binary floating point\<close>

text \<open>
  \<open>round_double\<close> is the rounding of IEEE 754 binary64: the nearest number with a
  significand of 53 bits, a tie going to the even significand. The exponent range is
  taken unbounded, so overflow to infinity and subnormal numbers are not modelled.
\<close>

definition round_half_even :: "real \<Rightarrow> int" where
  "round_half_even x =
     (let f = \<lfloor>x\<rfloor>; r = x - of_int f in
      if r < 1 / 2 then f
      else if 1 / 2 < r then f + 1
      else if even f then f else f + 1)"

definition round_double :: "real \<Rightarrow> real" where
  "round_double x =
     (if x = 0 then 0
      else
        let e = \<lfloor>log 2 \<bar>x\<bar>\<rfloor> - 52 in
        of_int (round_half_even (x / 2 powr of_int e)) * 2 powr of_int e)"

text \<open>
  The operations of the interpreter on floats: each returns the rounded exact result.
  \<open>sum\<close> starts at 0 and adds from the left, rounding every partial sum (from CPython 3.12
  on it also carries a compensation term). An \<open>int\<close> operand is converted to \<open>float\<close>
  first; \<open>** 2\<close> and \<open>math.sqrt\<close> are taken as correctly rounded. Comparisons, \<open>min\<close> and
  \<open>max\<close> are exact.
\<close>

definition fl_div :: "real \<Rightarrow> real \<Rightarrow> real result" where
  "fl_div a b = (if b = 0 then Inl ZeroDivisionError else Inr (round_double (a / b)))"

definition fl_sqrt :: "real \<Rightarrow> real result" where
  "fl_sqrt x = (if x < 0 then Inl ValueError else Inr (round_double (sqrt x)))"

definition fl_sum :: "real list \<Rightarrow> real" where
  "fl_sum xs = fold (\<lambda>x acc. round_double (acc + x)) xs 0"

definition calculate_stats_double :: "real list \<Rightarrow> Statistics option result" where
  "calculate_stats_double values =
     (if values = [] then Inr None
      else
        let n = length values in
        bind_res (fl_div (fl_sum values) (round_double (real n))) (\<lambda>mean.
        if n < 2 then
          bind_res (py_min values) (\<lambda>mn.
          bind_res (py_max values) (\<lambda>mx.
          Inr (Some \<lparr>s_n = n, s_mean = mean, s_std = 0,
                     min_val = mn, max_val = mx,
                     ci_lower = mean, ci_upper = mean\<rparr>)))
        else
          bind_res (fl_div (fl_sum (map (\<lambda>x. round_double ((round_double (x - mean)) ^ 2)) values))
                      (round_double (real n - 1))) (\<lambda>variance.
          bind_res (fl_sqrt variance) (\<lambda>std.
          let t_value = (if n > 30 then round_double 1.96 else 2.0) in
          bind_res (fl_sqrt (round_double (real n))) (\<lambda>root_n.
          bind_res (fl_div std root_n) (\<lambda>q.
          let margin = round_double (t_value * q) in
          bind_res (py_min values) (\<lambda>mn.
          bind_res (py_max values) (\<lambda>mx.
          Inr (Some \<lparr>s_n = n, s_mean = mean, s_std = std,
                     min_val = mn, max_val = mx,
                     ci_lower = round_double (mean - margin),
                     ci_upper = round_double (mean + margin)\<rparr>)))))))))"

text \<open>The mean that \<open>calculate_stats_double\<close> computes, \<open>sum(values) / n\<close>.\<close>

definition double_mean :: "real list \<Rightarrow> real" where
  "double_mean xs = round_double (fl_sum xs / round_double (real (length xs)))"

section \<open>What the primitives and the statistics return\<close>

lemma bind_res_Inr: "bind_res (Inr v) f = f v"
  by (simp add: bind_res_def)

lemma bind_res_Inl: "bind_res (Inl e) f = Inl e"
  by (simp add: bind_res_def)

lemma py_div_ok: "b \<noteq> 0 \<Longrightarrow> py_div a b = Inr (a / b)"
  by (simp add: py_div_def)

lemma py_sqrt_ok: "0 \<le> x \<Longrightarrow> py_sqrt x = Inr (sqrt x)"
  by (simp add: py_sqrt_def)

lemma py_min_ok: "xs \<noteq> [] \<Longrightarrow> py_min xs = Inr (Min (set xs))"
proof (cases xs)
  case Nil
  assume "xs \<noteq> []"
  with Nil show ?thesis by simp
next
  case (Cons x ys)
  have "(\<lambda>y m::real. if y < m then y else m) = min"
    by (intro ext) (simp add: min_def)
  then have "fold (\<lambda>y m. if y < m then y else m) ys x = fold min ys x"
    by simp
  with Cons show ?thesis
    using Min.set_eq_fold [of x ys] by (simp add: py_min_def)
qed

lemma py_max_ok: "xs \<noteq> [] \<Longrightarrow> py_max xs = Inr (Max (set xs))"
proof (cases xs)
  case Nil
  assume "xs \<noteq> []"
  with Nil show ?thesis by simp
next
  case (Cons x ys)
  have "(\<lambda>y m::real. if y > m then y else m) = max"
    by (intro ext) (simp add: max_def)
  then have "fold (\<lambda>y m. if y > m then y else m) ys x = fold max ys x"
    by simp
  with Cons show ?thesis
    using Max.set_eq_fold [of x ys] by (simp add: py_max_def)
qed

lemma sum_list_sq_nonneg: "0 \<le> sum_list (map (\<lambda>x::real. (x - m) ^ 2) xs)"
  by (induction xs) simp_all

lemma sample_var_nonneg: "2 \<le> length xs \<Longrightarrow> 0 \<le> sample_var xs"
  unfolding sample_var_def
  by (intro divide_nonneg_nonneg sum_list_sq_nonneg) simp

lemma sum_list_lower: "(\<forall>x\<in>set xs. m \<le> x) \<Longrightarrow> real (length xs) * m \<le> sum_list xs"
  by (induction xs) (auto simp: algebra_simps)

lemma sum_list_upper: "(\<forall>x\<in>set xs. x \<le> m) \<Longrightarrow> sum_list xs \<le> real (length xs) * m"
  by (induction xs) (auto simp: algebra_simps)

lemma Min_le_sample_mean: "xs \<noteq> [] \<Longrightarrow> Min (set xs) \<le> sample_mean xs"
proof -
  assume ne: "xs \<noteq> []"
  have "real (length xs) * Min (set xs) \<le> sum_list xs"
    by (rule sum_list_lower) simp
  moreover have "0 < real (length xs)" using ne by simp
  ultimately show ?thesis
    unfolding sample_mean_def by (simp add: pos_le_divide_eq mult.commute)
qed

lemma sample_mean_le_Max: "xs \<noteq> [] \<Longrightarrow> sample_mean xs \<le> Max (set xs)"
proof -
  assume ne: "xs \<noteq> []"
  have "sum_list xs \<le> real (length xs) * Max (set xs)"
    by (rule sum_list_upper) simp
  moreover have "0 < real (length xs)" using ne by simp
  ultimately show ?thesis
    unfolding sample_mean_def by (simp add: pos_divide_le_eq mult.commute)
qed

lemma calculate_stats_single:
  "calculate_stats [x] = Inr (Some \<lparr>s_n = 1, s_mean = x, s_std = 0, min_val = x, max_val = x,
      ci_lower = x, ci_upper = x\<rparr>)"
  by (simp add: calculate_stats_def bind_res_def py_div_def py_min_def py_max_def)

lemma py_div_mean: "xs \<noteq> [] \<Longrightarrow> py_div (sum_list xs) (real (length xs)) = Inr (sample_mean xs)"
  by (simp add: py_div_def sample_mean_def)

lemma py_div_var:
  "2 \<le> length xs \<Longrightarrow>
   py_div (sum_list (map (\<lambda>x. (x - sample_mean xs) ^ 2) xs)) (real (length xs) - 1)
     = Inr (sample_var xs)"
  by (simp add: py_div_def sample_var_def)

lemma calculate_stats_many:
  assumes "2 \<le> length values"
  shows "calculate_stats values = Inr (Some
    \<lparr>s_n = length values, s_mean = sample_mean values, s_std = sqrt (sample_var values),
     min_val = Min (set values), max_val = Max (set values),
     ci_lower = sample_mean values
        - (if length values > 30 then 1.96 else 2.0) * (sqrt (sample_var values) / sqrt (real (length values))),
     ci_upper = sample_mean values
        + (if length values > 30 then 1.96 else 2.0) * (sqrt (sample_var values) / sqrt (real (length values)))\<rparr>)"
proof -
  from assms have ne: "values \<noteq> []" by auto
  from assms have nlt: "\<not> length values < 2"
    by auto
  have v: "0 \<le> sample_var values" using assms by (rule sample_var_nonneg)
  have sq: "sqrt (real (length values)) \<noteq> 0" using ne by simp
  show ?thesis
    unfolding calculate_stats_def Let_def
    using ne nlt
    by (simp add: py_div_mean py_div_var [OF assms] py_div_ok [OF sq] bind_res_Inr
        py_sqrt_ok v py_min_ok py_max_ok)
qed

lemma bind_res_df: "bind_res (if 0 < d then py_div n d else Inr 1) (\<lambda>_. k) = k"
  by (simp add: bind_res_def py_div_def)

lemma se_arg_nonneg:
  "2 \<le> length s1 \<Longrightarrow> 2 \<le> length s2 \<Longrightarrow>
   0 \<le> sample_var s1 / real (length s1) + sample_var s2 / real (length s2)"
  by (intro add_nonneg_nonneg divide_nonneg_nonneg sample_var_nonneg) simp_all

lemma welch_t_test_eq:
  assumes l1: "2 \<le> length s1" and l2: "2 \<le> length s2"
  shows "welch_t_test erf s1 s2 =
     Inr (if std_error s1 s2 = 0 then (0, 1)
          else ((sample_mean s1 - sample_mean s2) / std_error s1 s2,
                2 * (1 - normal_cdf erf \<bar>(sample_mean s1 - sample_mean s2) / std_error s1 s2\<bar>)))"
proof -
  from l1 l2 have n: "real (length s1) \<noteq> 0" "real (length s2) \<noteq> 0"
      "real (length s1) - 1 \<noteq> 0" "real (length s2) - 1 \<noteq> 0"
    and nlt: "\<not> (length s1 < 2 \<or> length s2 < 2)"
    by auto
  from l1 l2 have ne: "s1 \<noteq> []" "s2 \<noteq> []" by auto
  have se: "py_sqrt (sample_var s1 / real (length s1) + sample_var s2 / real (length s2))
      = Inr (std_error s1 s2)"
    using se_arg_nonneg [OF l1 l2] by (simp add: py_sqrt_def std_error_def)
  have "welch_t_test erf s1 s2 =
      bind_res (py_div (sample_var s1) (real (length s1))) (\<lambda>a1.
      bind_res (py_div (sample_var s2) (real (length s2))) (\<lambda>a2.
      bind_res (py_sqrt (a1 + a2)) (\<lambda>se.
      if se = 0 then Inr (0.0, 1.0)
      else
        bind_res (py_div (sample_mean s1 - sample_mean s2) se) (\<lambda>t_stat.
        bind_res (py_div (sample_var s1) (real (length s1))) (\<lambda>b1.
        bind_res (py_div (sample_var s2) (real (length s2))) (\<lambda>b2.
        bind_res (py_div (sample_var s1) (real (length s1))) (\<lambda>c1.
        bind_res (py_div (c1 ^ 2) (real (length s1) - 1)) (\<lambda>d1.
        bind_res (py_div (sample_var s2) (real (length s2))) (\<lambda>c2.
        bind_res (py_div (c2 ^ 2) (real (length s2) - 1)) (\<lambda>d2.
        bind_res (if d1 + d2 > 0 then py_div ((b1 + b2) ^ 2) (d1 + d2) else Inr 1) (\<lambda>df.
        Inr (t_stat, 2 * (1 - normal_cdf erf \<bar>t_stat\<bar>)))))))))))))"
    unfolding welch_t_test_def Let_def
    by (simp only: nlt if_False py_div_mean [OF ne(1)] py_div_mean [OF ne(2)]
        py_div_var [OF l1] py_div_var [OF l2] bind_res_Inr)
  also have "\<dots> = Inr (if std_error s1 s2 = 0 then (0, 1)
          else ((sample_mean s1 - sample_mean s2) / std_error s1 s2,
                2 * (1 - normal_cdf erf \<bar>(sample_mean s1 - sample_mean s2) / std_error s1 s2\<bar>)))"
    by (simp only: py_div_ok [OF n(1)] py_div_ok [OF n(2)] py_div_ok [OF n(3)]
          py_div_ok [OF n(4)] bind_res_Inr se bind_res_df)
       (simp add: py_div_def bind_res_Inr)
  finally show ?thesis .
qed

lemma pooled_arg_nonneg:
  assumes l1: "2 \<le> length s1" and l2: "2 \<le> length s2"
  shows "0 \<le> ((real (length s1) - 1) * sample_var s1 + (real (length s2) - 1) * sample_var s2)
           / (real (length s1) + real (length s2) - 2)"
proof -
  from l1 l2 have "0 \<le> real (length s1) - 1" "0 \<le> real (length s2) - 1"
      "0 \<le> real (length s1) + real (length s2) - 2"
    by auto
  then show ?thesis
    using sample_var_nonneg [OF l1] sample_var_nonneg [OF l2]
    by (intro divide_nonneg_nonneg add_nonneg_nonneg mult_nonneg_nonneg)
qed

lemma cohens_d_eq:
  assumes l1: "2 \<le> length s1" and l2: "2 \<le> length s2"
  shows "cohens_d s1 s2 =
     Inr (if pooled_sd s1 s2 = 0 then 0
          else (sample_mean s1 - sample_mean s2) / pooled_sd s1 s2)"
proof -
  from l1 l2 have n: "real (length s1) \<noteq> 0" "real (length s2) \<noteq> 0"
      "real (length s1) - 1 \<noteq> 0" "real (length s2) - 1 \<noteq> 0"
      "real (length s1) + real (length s2) - 2 \<noteq> 0"
    and nlt: "\<not> (length s1 < 2 \<or> length s2 < 2)"
    by auto
  from l1 l2 have ne: "s1 \<noteq> []" "s2 \<noteq> []" by auto
  have sd: "py_sqrt (((real (length s1) - 1) * sample_var s1 + (real (length s2) - 1) * sample_var s2)
           / (real (length s1) + real (length s2) - 2)) = Inr (pooled_sd s1 s2)"
    using pooled_arg_nonneg [OF l1 l2] by (simp add: py_sqrt_def pooled_sd_def)
  have "cohens_d s1 s2 =
      bind_res (py_div ((real (length s1) - 1) * sample_var s1 + (real (length s2) - 1) * sample_var s2)
                  (real (length s1) + real (length s2) - 2)) (\<lambda>pooled_var.
      bind_res (py_sqrt pooled_var) (\<lambda>pooled_std.
      if pooled_std = 0 then Inr 0.0
      else py_div (sample_mean s1 - sample_mean s2) pooled_std))"
    unfolding cohens_d_def Let_def
    by (simp only: nlt if_False py_div_mean [OF ne(1)] py_div_mean [OF ne(2)]
        py_div_var [OF l1] py_div_var [OF l2] bind_res_Inr)
  also have "\<dots> = Inr (if pooled_sd s1 s2 = 0 then 0
          else (sample_mean s1 - sample_mean s2) / pooled_sd s1 s2)"
    by (simp only: py_div_ok [OF n(5)] bind_res_Inr sd)
       (simp add: py_div_def bind_res_Inr)
  finally show ?thesis .
qed

lemma std_error_commute: "std_error s2 s1 = std_error s1 s2"
  by (simp add: std_error_def add.commute)

lemma pooled_sd_commute: "pooled_sd s2 s1 = pooled_sd s1 s2"
  by (simp add: pooled_sd_def add.commute)

lemma short_sample: "xs \<noteq> [] \<Longrightarrow> length xs < 2 \<Longrightarrow> \<exists>x. xs = [x]"
  by (cases xs) auto

lemma calculate_stats_nonempty:
  assumes "values \<noteq> []"
  shows "\<exists>st. calculate_stats values = Inr (Some st) \<and> s_n st = length values \<and>
    s_mean st = sample_mean values \<and> min_val st = Min (set values) \<and>
    max_val st = Max (set values)"
proof (cases "2 \<le> length values")
  case True
  then show ?thesis by (simp add: calculate_stats_many)
next
  case False
  with assms obtain x where "values = [x]"
    using short_sample [of "values"] by auto
  then show ?thesis
    by (simp add: calculate_stats_single sample_mean_def)
qed

section \<open>Rounding to binary64\<close>

lemma round_half_even_bounds: "\<lfloor>x\<rfloor> \<le> round_half_even x \<and> round_half_even x \<le> \<lfloor>x\<rfloor> + 1"
  by (simp add: round_half_even_def Let_def)

lemma round_half_even_of_int: "round_half_even (of_int k) = k"
  by (simp add: round_half_even_def Let_def)

lemma round_half_even_mono:
  assumes "x \<le> y"
  shows "round_half_even x \<le> round_half_even y"
proof (cases "\<lfloor>x\<rfloor> = \<lfloor>y\<rfloor>")
  case True
  with assms show ?thesis
    by (auto simp: round_half_even_def Let_def)
next
  case False
  with assms have "\<lfloor>x\<rfloor> + 1 \<le> \<lfloor>y\<rfloor>"
    using floor_mono [OF assms] by linarith
  then show ?thesis
    using round_half_even_bounds [of x] round_half_even_bounds [of y] by linarith
qed

lemma binade:
  assumes "x \<noteq> 0"
  shows "2 ^ 52 \<le> \<bar>x\<bar> / 2 powr of_int (\<lfloor>log 2 \<bar>x\<bar>\<rfloor> - 52)"
    and "\<bar>x\<bar> / 2 powr of_int (\<lfloor>log 2 \<bar>x\<bar>\<rfloor> - 52) < 2 ^ 53"
proof -
  define k where "k = \<lfloor>log 2 \<bar>x\<bar>\<rfloor>"
  from assms have pos: "0 < \<bar>x\<bar>" by simp
  have "2 powr of_int k \<le> \<bar>x\<bar> \<and> \<bar>x\<bar> < 2 powr (of_int k + 1)"
    using floor_log_eq_powr_iff [OF pos, of 2 k] by (simp add: k_def)
  then have lo: "2 powr of_int k \<le> \<bar>x\<bar>" and hi: "\<bar>x\<bar> < 2 powr (of_int k + 1)"
    by simp_all
  have split: "(2::real) powr of_int k = 2 ^ 52 * 2 powr of_int (k - 52)"
    by (simp add: powr_diff)
  have split': "(2::real) powr (of_int k + 1) = 2 ^ 53 * 2 powr of_int (k - 52)"
    by (simp add: powr_diff powr_add)
  have p: "0 < (2::real) powr of_int (k - 52)" by simp
  show "2 ^ 52 \<le> \<bar>x\<bar> / 2 powr of_int (\<lfloor>log 2 \<bar>x\<bar>\<rfloor> - 52)"
    using lo p unfolding split k_def [symmetric] by (simp add: pos_le_divide_eq)
  show "\<bar>x\<bar> / 2 powr of_int (\<lfloor>log 2 \<bar>x\<bar>\<rfloor> - 52) < 2 ^ 53"
    using hi p unfolding split' k_def [symmetric] by (simp add: pos_divide_less_eq)
qed

lemma powr_shift: "(2::real) ^ n * 2 powr of_int e = 2 powr of_int (e + int n)"
  by (simp add: powr_add powr_realpow mult.commute)

lemma round_double_eq:
  "x \<noteq> 0 \<Longrightarrow> round_double x =
     of_int (round_half_even (x / 2 powr of_int (\<lfloor>log 2 \<bar>x\<bar>\<rfloor> - 52)))
       * 2 powr of_int (\<lfloor>log 2 \<bar>x\<bar>\<rfloor> - 52)"
  by (simp add: round_double_def Let_def)

lemma mantissa_pos:
  assumes "0 < x"
  shows "2 ^ 52 \<le> round_half_even (x / 2 powr of_int (\<lfloor>log 2 \<bar>x\<bar>\<rfloor> - 52))"
    and "round_half_even (x / 2 powr of_int (\<lfloor>log 2 \<bar>x\<bar>\<rfloor> - 52)) \<le> 2 ^ 53"
proof -
  from assms have nz: "x \<noteq> 0" and a: "\<bar>x\<bar> = x" by simp_all
  have lo: "of_int (2 ^ 52) \<le> x / 2 powr of_int (\<lfloor>log 2 \<bar>x\<bar>\<rfloor> - 52)"
    using binade(1) [OF nz] a by simp
  have hi: "x / 2 powr of_int (\<lfloor>log 2 \<bar>x\<bar>\<rfloor> - 52) \<le> of_int (2 ^ 53)"
    using binade(2) [OF nz] a by simp
  show "2 ^ 52 \<le> round_half_even (x / 2 powr of_int (\<lfloor>log 2 \<bar>x\<bar>\<rfloor> - 52))"
    using round_half_even_mono [OF lo] by (simp only: round_half_even_of_int)
  show "round_half_even (x / 2 powr of_int (\<lfloor>log 2 \<bar>x\<bar>\<rfloor> - 52)) \<le> 2 ^ 53"
    using round_half_even_mono [OF hi] by (simp only: round_half_even_of_int)
qed

lemma mantissa_neg:
  assumes "x < 0"
  shows "- (2 ^ 53) \<le> round_half_even (x / 2 powr of_int (\<lfloor>log 2 \<bar>x\<bar>\<rfloor> - 52))"
    and "round_half_even (x / 2 powr of_int (\<lfloor>log 2 \<bar>x\<bar>\<rfloor> - 52)) \<le> - (2 ^ 52)"
proof -
  from assms have nz: "x \<noteq> 0" and a: "\<bar>x\<bar> = - x" by simp_all
  have lo: "of_int (- (2 ^ 53)) \<le> x / 2 powr of_int (\<lfloor>log 2 \<bar>x\<bar>\<rfloor> - 52)"
    using binade(2) [OF nz] unfolding a by simp
  have hi: "x / 2 powr of_int (\<lfloor>log 2 \<bar>x\<bar>\<rfloor> - 52) \<le> of_int (- (2 ^ 52))"
    using binade(1) [OF nz] unfolding a by simp
  show "- (2 ^ 53) \<le> round_half_even (x / 2 powr of_int (\<lfloor>log 2 \<bar>x\<bar>\<rfloor> - 52))"
    using round_half_even_mono [OF lo] by (simp only: round_half_even_of_int)
  show "round_half_even (x / 2 powr of_int (\<lfloor>log 2 \<bar>x\<bar>\<rfloor> - 52)) \<le> - (2 ^ 52)"
    using round_half_even_mono [OF hi] by (simp only: round_half_even_of_int)
qed

lemma round_double_pos: "0 < x \<Longrightarrow> 0 < round_double x"
proof -
  assume p: "0 < x"
  then have "x \<noteq> 0" by simp
  moreover have "(0::int) < round_half_even (x / 2 powr of_int (\<lfloor>log 2 \<bar>x\<bar>\<rfloor> - 52))"
    using mantissa_pos(1) [OF p] zero_less_power [of "2::int" 52] by linarith
  ultimately show ?thesis
    by (simp add: round_double_eq zero_less_mult_iff)
qed

lemma round_double_neg: "x < 0 \<Longrightarrow> round_double x < 0"
proof -
  assume p: "x < 0"
  then have "x \<noteq> 0" by simp
  moreover have "round_half_even (x / 2 powr of_int (\<lfloor>log 2 \<bar>x\<bar>\<rfloor> - 52)) < (0::int)"
    using mantissa_neg(2) [OF p] zero_less_power [of "2::int" 52] by linarith
  ultimately show ?thesis
    by (simp add: round_double_eq mult_less_0_iff)
qed

lemma round_double_zero: "round_double 0 = 0"
  by (simp add: round_double_def)

lemma round_double_nonneg: "0 \<le> x \<Longrightarrow> 0 \<le> round_double x"
  using round_double_pos [of x] round_double_zero by (cases "x = 0") auto

lemma log2_floor_mono: "0 < x \<Longrightarrow> x \<le> y \<Longrightarrow> \<lfloor>log 2 x\<rfloor> \<le> \<lfloor>log 2 y\<rfloor>"
  by (intro floor_mono) simp

lemma round_double_mono_pos:
  assumes "0 < x" and "x \<le> y"
  shows "round_double x \<le> round_double y"
proof -
  define ex where "ex = \<lfloor>log 2 \<bar>x\<bar>\<rfloor> - 52"
  define ey where "ey = \<lfloor>log 2 \<bar>y\<bar>\<rfloor> - 52"
  from assms have y: "0 < y" by simp
  from assms y have le: "ex \<le> ey"
    using log2_floor_mono [of x y] by (simp add: ex_def ey_def)
  have rx: "round_double x = of_int (round_half_even (x / 2 powr of_int ex)) * 2 powr of_int ex"
    using assms(1) by (simp add: round_double_eq ex_def)
  have ry: "round_double y = of_int (round_half_even (y / 2 powr of_int ey)) * 2 powr of_int ey"
    using y by (simp add: round_double_eq ey_def)
  show ?thesis
  proof (cases "ex = ey")
    case True
    have "x / 2 powr of_int ey \<le> y / 2 powr of_int ey"
      using assms(2) by (simp add: divide_right_mono)
    then have "round_half_even (x / 2 powr of_int ey) \<le> round_half_even (y / 2 powr of_int ey)"
      by (rule round_half_even_mono)
    then show ?thesis
      unfolding rx ry True by (simp add: mult_right_mono)
  next
    case False
    with le have lt: "ex + 1 \<le> ey" by simp
    have "round_double x \<le> 2 ^ 53 * 2 powr of_int ex"
      unfolding rx using mantissa_pos(2) [OF assms(1), folded ex_def]
      by (intro mult_right_mono) (simp_all add: of_int_le_iff [of _ "2 ^ 53", simplified])
    also have "\<dots> = 2 powr of_int (ex + 53)"
      using powr_shift [of 53 ex] by simp
    also have "\<dots> \<le> 2 powr of_int (ey + 52)"
      using lt by (intro powr_mono) simp_all
    also have "\<dots> = 2 ^ 52 * 2 powr of_int ey"
      using powr_shift [of 52 ey] by simp
    also have "\<dots> \<le> round_double y"
      unfolding ry using mantissa_pos(1) [OF y, folded ey_def]
      by (intro mult_right_mono) (simp_all add: of_int_le_iff [of "2 ^ 52", simplified])
    finally show ?thesis .
  qed
qed

lemma round_double_mono_neg:
  assumes "y < 0" and "x \<le> y"
  shows "round_double x \<le> round_double y"
proof -
  define ex where "ex = \<lfloor>log 2 \<bar>x\<bar>\<rfloor> - 52"
  define ey where "ey = \<lfloor>log 2 \<bar>y\<bar>\<rfloor> - 52"
  from assms have x: "x < 0" by simp
  from assms x have le: "ey \<le> ex"
    using log2_floor_mono [of "\<bar>y\<bar>" "\<bar>x\<bar>"] by (simp add: ex_def ey_def)
  have rx: "round_double x = of_int (round_half_even (x / 2 powr of_int ex)) * 2 powr of_int ex"
    using x by (simp add: round_double_eq ex_def)
  have ry: "round_double y = of_int (round_half_even (y / 2 powr of_int ey)) * 2 powr of_int ey"
    using assms(1) by (simp add: round_double_eq ey_def)
  show ?thesis
  proof (cases "ex = ey")
    case True
    have "x / 2 powr of_int ey \<le> y / 2 powr of_int ey"
      using assms(2) by (simp add: divide_right_mono)
    then have "round_half_even (x / 2 powr of_int ey) \<le> round_half_even (y / 2 powr of_int ey)"
      by (rule round_half_even_mono)
    then show ?thesis
      unfolding rx ry True by (simp add: mult_right_mono)
  next
    case False
    with le have lt: "ey + 1 \<le> ex" by simp
    have "round_double x \<le> - (2 ^ 52) * 2 powr of_int ex"
      unfolding rx using mantissa_neg(2) [OF x, folded ex_def]
      by (intro mult_right_mono) (simp_all add: of_int_le_iff [of _ "- (2 ^ 52)", simplified])
    also have "\<dots> = - (2 powr of_int (ex + 52))"
      using powr_shift [of 52 ex] by simp
    also have "\<dots> \<le> - (2 powr of_int (ey + 53))"
      using lt by (simp add: powr_mono)
    also have "\<dots> = - (2 ^ 53) * 2 powr of_int ey"
      using powr_shift [of 53 ey] by simp
    also have "\<dots> \<le> round_double y"
      unfolding ry using mantissa_neg(1) [OF assms(1), folded ey_def]
      by (intro mult_right_mono) (simp_all add: of_int_le_iff [of "- (2 ^ 53)", simplified])
    finally show ?thesis .
  qed
qed

lemma round_double_mono:
  assumes "x \<le> y"
  shows "round_double x \<le> round_double y"
proof -
  consider "0 < x" | "y < 0" | "x \<le> 0" "0 \<le> y" by linarith
  then show ?thesis
  proof cases
    case 1
    then show ?thesis using assms by (rule round_double_mono_pos)
  next
    case 2
    then show ?thesis using assms by (rule round_double_mono_neg)
  next
    case 3
    have "round_double x \<le> 0"
      using round_double_neg [of x] round_double_zero 3(1) by (cases "x = 0") auto
    moreover have "0 \<le> round_double y"
      using 3(2) by (rule round_double_nonneg)
    ultimately show ?thesis by simp
  qed
qed

lemma round_double_binade:
  assumes "2 powr of_int k \<le> \<bar>x\<bar>" and "\<bar>x\<bar> < 2 powr of_int (k + 1)"
  shows "round_double x =
    of_int (round_half_even (x / 2 powr of_int (k - 52))) * 2 powr of_int (k - 52)"
proof -
  have "0 < (2::real) powr of_int k" by simp
  with assms(1) have pos: "0 < \<bar>x\<bar>" by linarith
  then have nz: "x \<noteq> 0" by simp
  have "\<lfloor>log 2 \<bar>x\<bar>\<rfloor> = k"
    using floor_log_eq_powr_iff [OF pos, of 2 k] assms by (simp add: add.commute)
  then show ?thesis
    using nz by (simp add: round_double_eq)
qed

lemma round_double_repr:
  assumes "2 ^ 52 \<le> \<bar>m\<bar>" and "\<bar>m\<bar> \<le> 2 ^ 53"
  shows "round_double (of_int m * 2 powr of_int e) = of_int m * 2 powr of_int e"
proof (cases "\<bar>m\<bar> < 2 ^ 53")
  case True
  have abs: "\<bar>of_int m * 2 powr of_int e\<bar> = of_int \<bar>m\<bar> * (2::real) powr of_int e"
    by (simp add: abs_mult)
  have lo: "2 powr of_int (e + 52) \<le> \<bar>of_int m * (2::real) powr of_int e\<bar>"
  proof -
    have "(2::real) ^ 52 \<le> of_int \<bar>m\<bar>"
      using assms(1) of_int_le_iff [of "2 ^ 52" "\<bar>m\<bar>", where ?'a = real] by simp
    then have "(2::real) ^ 52 * 2 powr of_int e \<le> of_int \<bar>m\<bar> * 2 powr of_int e"
      by (intro mult_right_mono) simp_all
    moreover have "(2::real) ^ 52 * 2 powr of_int e = 2 powr of_int (e + 52)"
      using powr_shift [of 52 e] by simp
    ultimately show ?thesis
      unfolding abs by linarith
  qed
  have hi: "\<bar>of_int m * (2::real) powr of_int e\<bar> < 2 powr of_int (e + 52 + 1)"
  proof -
    have "of_int \<bar>m\<bar> < (2::real) ^ 53"
      using True of_int_less_iff [of "\<bar>m\<bar>" "2 ^ 53", where ?'a = real] by simp
    then have "of_int \<bar>m\<bar> * 2 powr of_int e < (2::real) ^ 53 * 2 powr of_int e"
      by (intro mult_strict_right_mono) simp_all
    moreover have "(2::real) ^ 53 * 2 powr of_int e = 2 powr of_int (e + 52 + 1)"
      using powr_shift [of 53 e] by (simp add: add.commute)
    ultimately show ?thesis
      unfolding abs by linarith
  qed
  have kk: "e + 52 - 52 = e" by simp
  have q: "of_int m * (2::real) powr of_int e / 2 powr of_int e = of_int m" by simp
  show ?thesis
    using round_double_binade [OF lo hi] unfolding kk
    by (simp only: q round_half_even_of_int)
next
  case False
  with assms(2) have m: "\<bar>m\<bar> = 2 ^ 53" by simp
  have abs: "\<bar>of_int m * 2 powr of_int e\<bar> = of_int \<bar>m\<bar> * (2::real) powr of_int e"
    by (simp add: abs_mult)
  have eq: "\<bar>of_int m * (2::real) powr of_int e\<bar> = 2 powr of_int (e + 53)"
    unfolding abs m using powr_shift [of 53 e] by simp
  have lo: "2 powr of_int (e + 53) \<le> \<bar>of_int m * (2::real) powr of_int e\<bar>"
    unfolding eq by simp
  have hi: "\<bar>of_int m * (2::real) powr of_int e\<bar> < 2 powr of_int (e + 53 + 1)"
    unfolding eq by simp
  from m have "even \<bar>m\<bar>" by simp
  then have "even m" by simp
  then have half: "m = 2 * (m div 2)" by simp
  have sh: "(2::real) powr of_int (e + 1) = 2 * 2 powr of_int e"
    using powr_shift [of 1 e] by simp
  have q: "of_int m * (2::real) powr of_int e / 2 powr of_int (e + 1) = of_int (m div 2)"
  proof -
    have "of_int m = 2 * (of_int (m div 2) :: real)"
      using half by (metis of_int_mult of_int_numeral)
    then show ?thesis
      unfolding sh by simp
  qed
  have kk: "e + 53 - 52 = e + 1" by simp
  have "round_double (of_int m * 2 powr of_int e)
      = of_int (m div 2) * 2 powr of_int (e + 1)"
    using round_double_binade [OF lo hi] unfolding kk
    by (simp only: q round_half_even_of_int)
  also have "\<dots> = of_int m * 2 powr of_int e"
  proof -
    have "of_int m = 2 * (of_int (m div 2) :: real)"
      using half by (metis of_int_mult of_int_numeral)
    then show ?thesis
      unfolding sh by simp
  qed
  finally show ?thesis .
qed

lemma round_double_idem: "round_double (round_double x) = round_double x"
proof -
  consider "x = 0" | "0 < x" | "x < 0" by linarith
  then show ?thesis
  proof cases
    case 1
    then show ?thesis by (simp add: round_double_zero)
  next
    case 2
    then have nz: "x \<noteq> 0" by simp
    have "\<bar>round_half_even (x / 2 powr of_int (\<lfloor>log 2 \<bar>x\<bar>\<rfloor> - 52))\<bar>
        = round_half_even (x / 2 powr of_int (\<lfloor>log 2 \<bar>x\<bar>\<rfloor> - 52))"
      using mantissa_pos(1) [OF 2] zero_less_power [of "2::int" 52] by linarith
    then show ?thesis
      unfolding round_double_eq [OF nz]
      using mantissa_pos [OF 2] by (intro round_double_repr) simp_all
  next
    case 3
    then have nz: "x \<noteq> 0" by simp
    have "\<bar>round_half_even (x / 2 powr of_int (\<lfloor>log 2 \<bar>x\<bar>\<rfloor> - 52))\<bar>
        = - round_half_even (x / 2 powr of_int (\<lfloor>log 2 \<bar>x\<bar>\<rfloor> - 52))"
      using mantissa_neg(2) [OF 3] zero_less_power [of "2::int" 52] by linarith
    then show ?thesis
      unfolding round_double_eq [OF nz]
      using mantissa_neg [OF 3] by (intro round_double_repr) simp_all
  qed
qed

lemma fold_round_nonneg:
  "0 \<le> acc \<Longrightarrow> (\<forall>x\<in>set xs. 0 \<le> x) \<Longrightarrow> 0 \<le> fold (\<lambda>x acc. round_double (acc + x)) xs acc"
proof (induction xs arbitrary: acc)
  case Nil
  then show ?case by simp
next
  case (Cons x xs)
  then have "0 \<le> round_double (acc + x)"
    by (intro round_double_nonneg) simp
  with Cons show ?case by simp
qed

lemma fl_sum_nonneg: "(\<forall>x\<in>set xs. 0 \<le> x) \<Longrightarrow> 0 \<le> fl_sum xs"
  unfolding fl_sum_def by (rule fold_round_nonneg) simp_all

lemma fl_div_ok: "b \<noteq> 0 \<Longrightarrow> fl_div a b = Inr (round_double (a / b))"
  by (simp add: fl_div_def)

lemma fl_sqrt_ok: "0 \<le> x \<Longrightarrow> fl_sqrt x = Inr (round_double (sqrt x))"
  by (simp add: fl_sqrt_def)

lemma calculate_stats_double_many:
  assumes "2 \<le> length values"
  shows "\<exists>std margin. 0 \<le> margin \<and> calculate_stats_double values = Inr (Some
    \<lparr>s_n = length values, s_mean = double_mean values, s_std = std,
     min_val = Min (set values), max_val = Max (set values),
     ci_lower = round_double (double_mean values - margin),
     ci_upper = round_double (double_mean values + margin)\<rparr>)"
proof -
  define n where "n = length values"
  define mean where "mean = double_mean values"
  define ss where "ss = fl_sum (map (\<lambda>x. round_double ((round_double (x - mean)) ^ 2)) values)"
  define variance where "variance = round_double (ss / round_double (real n - 1))"
  define std where "std = round_double (sqrt variance)"
  define t_value where "t_value = (if n > 30 then round_double 1.96 else (2.0::real))"
  define root_n where "root_n = round_double (sqrt (round_double (real n)))"
  define q where "q = round_double (std / root_n)"
  define margin where "margin = round_double (t_value * q)"
  from assms have ne: "values \<noteq> []" and nlt: "\<not> length values < 2" by auto
  from assms have n2: "2 \<le> n" by (simp add: n_def)
  have rn: "0 < round_double (real n)"
    using n2 by (intro round_double_pos) simp
  have rn1: "0 < round_double (real n - 1)"
    using n2 by (intro round_double_pos) simp
  have ss: "0 \<le> ss"
    unfolding ss_def by (intro fl_sum_nonneg) (simp add: round_double_nonneg)
  have variance: "0 \<le> variance"
    unfolding variance_def using ss rn1 by (intro round_double_nonneg) simp
  have std: "0 \<le> std"
    unfolding std_def using variance by (intro round_double_nonneg) simp
  have root_n: "0 < root_n"
    unfolding root_n_def using rn by (intro round_double_pos) simp
  have q: "0 \<le> q"
    unfolding q_def using std root_n by (intro round_double_nonneg) simp
  have "0 < round_double 1.96"
    by (intro round_double_pos) simp
  then have t_value: "0 \<le> t_value"
    by (simp add: t_value_def)
  have margin: "0 \<le> margin"
    unfolding margin_def using t_value q by (intro round_double_nonneg) simp
  have m: "fl_div (fl_sum values) (round_double (real (length values))) = Inr mean"
    using rn by (simp add: fl_div_def mean_def double_mean_def n_def)
  have v: "fl_div (fl_sum (map (\<lambda>x. round_double ((round_double (x - mean)) ^ 2)) values))
      (round_double (real (length values) - 1)) = Inr variance"
    using rn1 by (simp add: fl_div_def variance_def ss_def n_def)
  have s: "fl_sqrt variance = Inr std"
    using variance by (simp add: fl_sqrt_def std_def)
  have r: "fl_sqrt (round_double (real (length values))) = Inr root_n"
    using rn by (simp add: fl_sqrt_def root_n_def n_def)
  have d: "fl_div std root_n = Inr q"
    using root_n by (simp add: fl_div_def q_def)
  have "calculate_stats_double values = Inr (Some
    \<lparr>s_n = length values, s_mean = mean, s_std = std,
     min_val = Min (set values), max_val = Max (set values),
     ci_lower = round_double (mean - margin),
     ci_upper = round_double (mean + margin)\<rparr>)"
    unfolding calculate_stats_double_def Let_def
    by (simp only: ne nlt if_False m v s r d bind_res_Inr py_min_ok [OF ne] py_max_ok [OF ne]
        margin_def t_value_def n_def)
  with margin show ?thesis
    unfolding mean_def by blast
qed

lemma round_double_at:
  assumes "2 powr of_int k \<le> \<bar>x\<bar>" and "\<bar>x\<bar> < 2 powr of_int (k + 1)"
    and "round_half_even (x / 2 powr of_int (k - 52)) = m"
  shows "round_double x = of_int m * 2 powr of_int (k - 52)"
  using round_double_binade [OF assms(1,2)] assms(3) by simp

lemma tenth_is_double:
  "round_double (3602879701896397 / 36028797018963968) = 3602879701896397 / 36028797018963968"
  using round_double_at [of "- 4" "3602879701896397 / 36028797018963968" 7205759403792794]
  by (simp add: powr_neg_numeral round_half_even_def Let_def)

lemma two_tenths:
  "round_double (3602879701896397 / 36028797018963968 + 3602879701896397 / 36028797018963968)
     = 3602879701896397 / 18014398509481984"
  using round_double_at [of "- 3" "3602879701896397 / 18014398509481984" 7205759403792794]
  by (simp add: powr_neg_numeral round_half_even_def Let_def)

lemma three_tenths:
  "round_double (3602879701896397 / 18014398509481984 + 3602879701896397 / 36028797018963968)
     = 5404319552844596 / 18014398509481984"
  using round_double_at [of "- 2" "10808639105689191 / 36028797018963968" 5404319552844596]
  by (simp add: powr_neg_numeral round_half_even_def Let_def)

lemma three_is_double: "round_double 3 = 3"
  using round_double_at [of 1 3 6755399441055744]
  by (simp add: powr_neg_numeral round_half_even_def Let_def)

lemma mean_of_three_tenths:
  "round_double (5404319552844596 / 18014398509481984 / 3) = 7205759403792795 / 72057594037927936"
  using round_double_at [of "- 4" "5404319552844596 / 18014398509481984 / 3" 7205759403792795]
  by (simp add: powr_neg_numeral round_half_even_def Let_def)

lemma round_double_twice: "round_double (2 * x) = 2 * round_double x"
proof (cases "x = 0")
  case True
  then show ?thesis by (simp add: round_double_zero)
next
  case False
  define k where "k = \<lfloor>log 2 \<bar>x\<bar>\<rfloor>"
  from False have pos: "0 < \<bar>x\<bar>" by simp
  have "2 powr of_int k \<le> \<bar>x\<bar> \<and> \<bar>x\<bar> < 2 powr (of_int k + 1)"
    using floor_log_eq_powr_iff [OF pos, of 2 k] by (simp add: k_def)
  then have lo: "2 powr of_int k \<le> \<bar>x\<bar>" and hi: "\<bar>x\<bar> < 2 powr of_int (k + 1)"
    by (simp_all add: add.commute)
  have sh: "(2::real) powr of_int (j + 1) = 2 * 2 powr of_int j" for j
    using powr_shift [of 1 j] by simp
  have lo2: "2 powr of_int (k + 1) \<le> \<bar>2 * x\<bar>"
    using lo unfolding sh by simp
  have hi2: "\<bar>2 * x\<bar> < 2 powr of_int (k + 1 + 1)"
    using hi unfolding sh by simp
  have kk: "k + 1 - 52 = (k - 52) + 1" by simp
  have q: "2 * x / (2 * 2 powr of_int (k - 52)) = x / 2 powr of_int (k - 52)" by simp
  have "round_double (2 * x)
      = of_int (round_half_even (x / 2 powr of_int (k - 52))) * (2 * 2 powr of_int (k - 52))"
    using round_double_binade [OF lo2 hi2] unfolding kk sh q .
  also have "\<dots> = 2 * round_double x"
    using round_double_binade [OF lo hi] by simp
  finally show ?thesis .
qed

lemma one_is_double: "round_double 1 = 1"
  using round_double_at [of 0 1 4503599627370496]
  by (simp add: powr_neg_numeral round_half_even_def Let_def)

lemma two_is_double: "round_double 2 = 2"
  using round_double_twice [of 1] by (simp add: one_is_double)

lemma calculate_stats_double_single:
  assumes "round_double x = x"
  shows "calculate_stats_double [x] =
    Inr (Some \<lparr>s_n = 1, s_mean = x, s_std = 0, min_val = x, max_val = x,
               ci_lower = x, ci_upper = x\<rparr>)"
  by (simp add: calculate_stats_double_def fl_div_def fl_sum_def one_is_double assms
      bind_res_def py_min_def py_max_def)

lemma double_mean_pair:
  assumes "round_double a = a" and "round_double b = b"
  shows "min a b \<le> double_mean [a, b] \<and> double_mean [a, b] \<le> max a b"
proof -
  have s: "fl_sum [a, b] = round_double (a + b)"
    by (simp add: fl_sum_def assms(1))
  have dm: "double_mean [a, b] = round_double (round_double (a + b) / 2)"
    by (simp add: double_mean_def s two_is_double)
  have mn: "round_double (min a b) = min a b" and mx: "round_double (max a b) = max a b"
    using assms by (simp_all add: min_def max_def)
  have "round_double (2 * min a b) \<le> round_double (a + b)"
    by (intro round_double_mono) simp
  then have "min a b \<le> round_double (a + b) / 2"
    by (simp add: round_double_twice mn)
  then have "round_double (min a b) \<le> round_double (round_double (a + b) / 2)"
    by (rule round_double_mono)
  then have lower: "min a b \<le> double_mean [a, b]"
    by (simp add: mn dm)
  have "round_double (a + b) \<le> round_double (2 * max a b)"
    by (intro round_double_mono) simp
  then have "round_double (a + b) / 2 \<le> max a b"
    by (simp add: round_double_twice mx)
  then have "round_double (round_double (a + b) / 2) \<le> round_double (max a b)"
    by (rule round_double_mono)
  then have upper: "double_mean [a, b] \<le> max a b"
    by (simp add: mx dm)
  from lower upper show ?thesis ..
qed

lemma double_mean_three_tenths:
  "double_mean [3602879701896397 / 36028797018963968, 3602879701896397 / 36028797018963968,
                3602879701896397 / 36028797018963968]
     = 7205759403792795 / 72057594037927936"
proof -
  have first: "round_double (0 + 3602879701896397 / 36028797018963968)
      = 3602879701896397 / 36028797018963968"
    using tenth_is_double by simp
  have total: "fl_sum [3602879701896397 / 36028797018963968, 3602879701896397 / 36028797018963968,
                3602879701896397 / 36028797018963968] = 5404319552844596 / 18014398509481984"
    by (simp only: fl_sum_def fold_simps first two_tenths three_tenths)
  have len: "real (length [3602879701896397 / 36028797018963968 :: real,
      3602879701896397 / 36028797018963968, 3602879701896397 / 36028797018963968]) = 3"
    by simp
  show ?thesis
    by (simp only: double_mean_def total len three_is_double mean_of_three_tenths)
qed

section \<open>The claims of the specification\<close>

subsection \<open>Descriptive statistics and effect-size bands\<close>

text \<open>
  In exact arithmetic the mean of every non-empty sample lies between its minimum and
  its maximum, and inside the confidence interval.
\<close>

lemma calculate_stats_exact_bounds:
  assumes "values \<noteq> []"
  shows "\<exists>st. calculate_stats values = Inr (Some st) \<and>
    ci_lower st \<le> s_mean st \<and> s_mean st \<le> ci_upper st \<and>
    min_val st \<le> s_mean st \<and> s_mean st \<le> max_val st \<and>
    (length values < 2 \<longrightarrow>
       s_std st = 0 \<and> ci_lower st = s_mean st \<and> ci_upper st = s_mean st \<and>
       values = [s_mean st])"
proof (cases "2 \<le> length values")
  case True
  have "0 \<le> sqrt (sample_var values) / sqrt (real (length values))"
    using sample_var_nonneg [OF True] by simp
  then have "0 \<le> (if length values > 30 then 1.96 else 2.0)
      * (sqrt (sample_var values) / sqrt (real (length values)))"
    by simp
  with True show ?thesis
    using Min_le_sample_mean [OF assms] sample_mean_le_Max [OF assms]
    by (simp add: calculate_stats_many)
next
  case False
  with assms obtain x where "values = [x]"
    using short_sample [of "values"] by auto
  then show ?thesis
    by (simp add: calculate_stats_single)
qed

text \<open>
  Claim C7 says that \<open>min \<le> mean \<le> max\<close> holds for every non-empty sample. The sample
  \<open>[0.1, 0.1, 0.1]\<close> is three times the double \<open>3602879701896397 / 2 ^ 55\<close>. Its sum is
  rounded up to \<open>0.30000000000000004\<close>, and the quotient by 3 is rounded up to
  \<open>0.10000000000000002 = 7205759403792795 / 2 ^ 56\<close>, which is above the maximum \<open>0.1\<close>.
\<close>

theorem mean_above_max_counterexample:
  "map_sum id (map_option s_mean)
     (calculate_stats_double [3602879701896397 / 36028797018963968,
        3602879701896397 / 36028797018963968, 3602879701896397 / 36028797018963968])
     = Inr (Some (7205759403792795 / 72057594037927936)) \<and>
   map_sum id (map_option max_val)
     (calculate_stats_double [3602879701896397 / 36028797018963968,
        3602879701896397 / 36028797018963968, 3602879701896397 / 36028797018963968])
     = Inr (Some (3602879701896397 / 36028797018963968)) \<and>
   (3602879701896397 / 36028797018963968 :: real) < 7205759403792795 / 72057594037927936"
proof -
  have "2 \<le> length [3602879701896397 / 36028797018963968 :: real,
      3602879701896397 / 36028797018963968, 3602879701896397 / 36028797018963968]"
    by simp
  from calculate_stats_double_many [OF this] show ?thesis
    by (auto simp: double_mean_three_tenths)
qed

text \<open>
  Claim C7, amended. For every non-empty sample of doubles, as long as no operation
  overflows, the computed statistics satisfy \<open>ci_lower \<le> mean \<le> ci_upper\<close>;
  \<open>min \<le> mean \<le> max\<close> holds when the sample has at most two observations; and if the
  sample has fewer than two observations then \<open>std = 0\<close> and
  \<open>ci_lower = ci_upper = mean\<close>, a confidence interval of zero width equal to that
  element.
\<close>

theorem calculate_stats_double_invariant:
  assumes "values \<noteq> []" and "\<forall>x\<in>set values. round_double x = x"
  shows "\<exists>st. calculate_stats_double values = Inr (Some st) \<and>
    ci_lower st \<le> s_mean st \<and> s_mean st \<le> ci_upper st \<and>
    (length values \<le> 2 \<longrightarrow> min_val st \<le> s_mean st \<and> s_mean st \<le> max_val st) \<and>
    (length values < 2 \<longrightarrow>
       s_std st = 0 \<and> ci_lower st = s_mean st \<and> ci_upper st = s_mean st \<and>
       values = [s_mean st])"
proof (cases "2 \<le> length values")
  case True
  from calculate_stats_double_many [OF True]
  obtain std margin where mg: "0 \<le> margin"
    and st: "calculate_stats_double values = Inr (Some
      \<lparr>s_n = length values, s_mean = double_mean values, s_std = std,
       min_val = Min (set values), max_val = Max (set values),
       ci_lower = round_double (double_mean values - margin),
       ci_upper = round_double (double_mean values + margin)\<rparr>)"
    by blast
  have dm_fixed: "round_double (double_mean values) = double_mean values"
    by (simp add: double_mean_def round_double_idem)
  have "round_double (double_mean values - margin) \<le> round_double (double_mean values)"
    using mg by (intro round_double_mono) simp
  then have lower: "round_double (double_mean values - margin) \<le> double_mean values"
    by (simp only: dm_fixed)
  have "round_double (double_mean values) \<le> round_double (double_mean values + margin)"
    using mg by (intro round_double_mono) simp
  then have upper: "double_mean values \<le> round_double (double_mean values + margin)"
    by (simp only: dm_fixed)
  have pair: "Min (set values) \<le> double_mean values \<and> double_mean values \<le> Max (set values)"
    if "length values \<le> 2"
  proof -
    from that True have "length values = 2" by simp
    then obtain a b where ab: "values = [a, b]"
      by (cases "values"; cases "tl values") auto
    with assms(2) have "round_double a = a" "round_double b = b" by simp_all
    from double_mean_pair [OF this] show ?thesis
      by (simp add: ab min.commute max.commute)
  qed
  show ?thesis
    using True lower upper pair by (simp add: st)
next
  case False
  with assms(1) obtain x where x: "values = [x]"
    using short_sample [of "values"] by auto
  with assms(2) have "round_double x = x" by simp
  then show ?thesis
    by (simp add: x calculate_stats_double_single)
qed

theorem calculate_stats_double_invariant_witness:
  "(\<exists>st. calculate_stats_double [3602879701896397 / 36028797018963968] = Inr (Some st) \<and>
      s_std st = 0 \<and> ci_lower st = s_mean st \<and> ci_upper st = s_mean st \<and>
      s_mean st = 3602879701896397 / 36028797018963968 \<and>
      min_val st \<le> s_mean st \<and> s_mean st \<le> max_val st) \<and>
   (\<exists>st. calculate_stats_double [3602879701896397 / 36028797018963968, 3] = Inr (Some st) \<and>
      ci_lower st \<le> s_mean st \<and> s_mean st \<le> ci_upper st \<and>
      min_val st \<le> s_mean st \<and> s_mean st \<le> max_val st) \<and>
   (\<exists>st. calculate_stats_double [3602879701896397 / 36028797018963968, 3, 1] = Inr (Some st) \<and>
      ci_lower st \<le> s_mean st \<and> s_mean st \<le> ci_upper st)"
  using calculate_stats_double_invariant [of "[3602879701896397 / 36028797018963968]"]
    calculate_stats_double_invariant [of "[3602879701896397 / 36028797018963968, 3]"]
    calculate_stats_double_invariant [of "[3602879701896397 / 36028797018963968, 3, 1]"]
  by (auto simp: tenth_is_double three_is_double one_is_double)

text \<open>
  Claim C9. The effect-size label depends on the absolute value of \<open>d\<close> only, and each
  band contains its lower edge: below 0.2 the label is "negligible", from 0.2 up to 0.5
  "small", from 0.5 up to 0.8 "medium", from 0.8 on "large"; so the labels at exactly
  0.2, 0.5 and 0.8 are "small", "medium" and "large".
\<close>

theorem effect_size_bands:
  "(\<bar>d\<bar> < 0.2 \<longrightarrow> effect_size_interpretation d = ''negligible'') \<and>
   (0.2 \<le> \<bar>d\<bar> \<and> \<bar>d\<bar> < 0.5 \<longrightarrow> effect_size_interpretation d = ''small'') \<and>
   (0.5 \<le> \<bar>d\<bar> \<and> \<bar>d\<bar> < 0.8 \<longrightarrow> effect_size_interpretation d = ''medium'') \<and>
   (0.8 \<le> \<bar>d\<bar> \<longrightarrow> effect_size_interpretation d = ''large'') \<and>
   effect_size_interpretation 0.2 = ''small'' \<and>
   effect_size_interpretation 0.5 = ''medium'' \<and>
   effect_size_interpretation 0.8 = ''large''"
  by (simp add: effect_size_interpretation_def Let_def)

theorem effect_size_bands_witness:
  "effect_size_interpretation 0.1 = ''negligible'' \<and>
   effect_size_interpretation (- 0.3) = ''small'' \<and>
   effect_size_interpretation 0.5 = ''medium'' \<and>
   effect_size_interpretation (- 0.9) = ''large''"
  using effect_size_bands [of "0.1"] effect_size_bands [of "- 0.3"]
    effect_size_bands [of "0.5"] effect_size_bands [of "- 0.9"]
  by simp

lemma welch_t_test_short:
  "length s1 < 2 \<or> length s2 < 2 \<Longrightarrow> welch_t_test erf s1 s2 = Inr (0, 1)"
  by (simp add: welch_t_test_def Let_def)

lemma cohens_d_short:
  "length s1 < 2 \<or> length s2 < 2 \<Longrightarrow> cohens_d s1 s2 = Inr 0"
  by (simp add: cohens_d_def Let_def)

subsection \<open>Welch's t-test and Cohen's d\<close>

text \<open>
  Claim C4. Swapping the two samples negates the t-statistic, keeps the p-value and
  negates Cohen's d, for all samples: also when a sample has fewer than two
  observations, when the standard error is zero and when the pooled standard deviation
  is zero, where both orders return the neutral values.
\<close>

theorem swap_antisymmetry:
  "(\<exists>t p. welch_t_test erf A B = Inr (t, p) \<and> welch_t_test erf B A = Inr (- t, p)) \<and>
   (\<exists>d. cohens_d A B = Inr d \<and> cohens_d B A = Inr (- d))"
proof (cases "length A < 2 \<or> length B < 2")
  case True
  then have "length B < 2 \<or> length A < 2" by auto
  with True show ?thesis
    by (simp add: welch_t_test_short cohens_d_short)
next
  case False
  then have lA: "2 \<le> length A" and lB: "2 \<le> length B" by auto
  have t: "(sample_mean B - sample_mean A) / std_error A B
      = - ((sample_mean A - sample_mean B) / std_error A B)"
    by (metis minus_diff_eq minus_divide_left)
  have d: "(sample_mean B - sample_mean A) / pooled_sd A B
      = - ((sample_mean A - sample_mean B) / pooled_sd A B)"
    by (metis minus_diff_eq minus_divide_left)
  have "\<exists>t p. welch_t_test erf A B = Inr (t, p) \<and> welch_t_test erf B A = Inr (- t, p)"
    by (simp add: welch_t_test_eq [OF lA lB] welch_t_test_eq [OF lB lA]
        std_error_commute [of B A] t del: abs_divide)
  moreover have "\<exists>d. cohens_d A B = Inr d \<and> cohens_d B A = Inr (- d)"
    by (simp add: cohens_d_eq [OF lA lB] cohens_d_eq [OF lB lA] pooled_sd_commute [of B A] d)
  ultimately show ?thesis by simp
qed





subsection \<open>The comparator\<close>

lemma welch_t_test_total: "\<exists>t p. welch_t_test erf s1 s2 = Inr (t, p)"
proof (cases "length s1 < 2 \<or> length s2 < 2")
  case True
  then show ?thesis by (simp add: welch_t_test_short)
next
  case False
  then have "2 \<le> length s1" and "2 \<le> length s2" by auto
  then show ?thesis by (simp add: welch_t_test_eq)
qed

lemma cohens_d_total: "\<exists>d. cohens_d s1 s2 = Inr d"
proof (cases "length s1 < 2 \<or> length s2 < 2")
  case True
  then show ?thesis by (simp add: cohens_d_short)
next
  case False
  then have "2 \<le> length s1" and "2 \<le> length s2" by auto
  then show ?thesis by (simp add: cohens_d_eq)
qed

lemma analyze_metric_eq:
  assumes "calculate_stats b = Inr (Some bs)" and "calculate_stats c = Inr (Some cs)"
    and "s_mean bs \<noteq> 0"
    and "welch_t_test erf b c = Inr (t, p)" and "cohens_d b c = Inr d"
  shows "analyze_metric erf b c name lib =
    Inr [''metric'' \<mapsto> PyStr name,
         ''baseline'' \<mapsto> PyStats bs,
         ''esm'' \<mapsto> PyStats cs,
         ''improvement_pct'' \<mapsto> PyFloat (if lib then (s_mean bs - s_mean cs) / s_mean bs * 100
                                          else (s_mean cs - s_mean bs) / s_mean bs * 100),
         ''improved'' \<mapsto> PyBool (if lib then s_mean cs < s_mean bs else s_mean cs > s_mean bs),
         ''t_statistic'' \<mapsto> PyFloat t,
         ''p_value'' \<mapsto> PyFloat p,
         ''cohens_d'' \<mapsto> PyFloat d,
         ''effect_size'' \<mapsto> PyStr (effect_size_interpretation d),
         ''significant'' \<mapsto> PyBool (p < 0.05)]"
  using assms(3)
  by (simp add: analyze_metric_def assms(1,2,4,5) bind_res_Inr py_div_def)

lemma analyze_metric_zero_baseline:
  assumes "calculate_stats b = Inr (Some bs)" and "calculate_stats c = Inr (Some cs)"
    and "s_mean bs = 0"
  shows "analyze_metric erf b c name lib = Inl ZeroDivisionError"
  by (simp add: analyze_metric_def assms bind_res_Inr bind_res_Inl py_div_def)

lemma analyze_metric_empty:
  assumes "b = [] \<or> c = []"
  shows "analyze_metric erf b c name lib =
    Inr [''metric'' \<mapsto> PyStr name, ''error'' \<mapsto> PyStr ''Insufficient data'']"
proof -
  have e: "calculate_stats [] = Inr None" by (simp add: calculate_stats_def)
  show ?thesis
  proof (cases "b = []")
    case True
    show ?thesis
    proof (cases "c = []")
      case True
      with \<open>b = []\<close> show ?thesis
        by (simp add: analyze_metric_def e bind_res_Inr)
    next
      case False
      from calculate_stats_nonempty [OF False]
      obtain cs where "calculate_stats c = Inr (Some cs)" by auto
      with True show ?thesis
        by (simp add: analyze_metric_def e bind_res_Inr)
    qed
  next
    case False
    with assms have "c = []" by simp
    from calculate_stats_nonempty [OF False]
    obtain bs where "calculate_stats b = Inr (Some bs)" by auto
    with \<open>c = []\<close> show ?thesis
      by (simp add: analyze_metric_def e bind_res_Inr)
  qed
qed




text \<open>
  Claim C3. There are non-empty samples with baseline mean exactly zero, and for every
  such pair the division of the improvement formula has the divisor zero: the
  comparator has no guard, raises \<open>ZeroDivisionError\<close> and returns no record, under
  either polarity.
\<close>

theorem zero_baseline_divides_by_zero:
  assumes "b \<noteq> []" and "c \<noteq> []" and "sample_mean b = 0"
  shows "(\<exists>bs. calculate_stats b = Inr (Some bs) \<and> s_mean bs = 0) \<and>
    analyze_metric erf b c name lower_is_better = Inl ZeroDivisionError"
proof -
  from calculate_stats_nonempty [OF assms(1)]
  obtain bs where bs: "calculate_stats b = Inr (Some bs)" "s_mean bs = sample_mean b" by auto
  from calculate_stats_nonempty [OF assms(2)]
  obtain cs where cs: "calculate_stats c = Inr (Some cs)" by auto
  from bs(2) assms(3) have z: "s_mean bs = 0" by simp
  show ?thesis
    using bs(1) z analyze_metric_zero_baseline [OF bs(1) cs z] by simp
qed

theorem zero_baseline_divides_by_zero_witness:
  "[- 1, 1] \<noteq> [] \<and> [2, 3] \<noteq> ([] :: real list) \<and> sample_mean [- 1, 1] = 0 \<and>
   analyze_metric math_erf [- 1, 1] [2, 3] ''cpu'' True = Inl ZeroDivisionError \<and>
   analyze_metric math_erf [- 1, 1] [2, 3] ''cpu'' False = Inl ZeroDivisionError"
proof -
  have m: "sample_mean [- 1, 1] = 0" by (simp add: sample_mean_def)
  show ?thesis
    using zero_baseline_divides_by_zero [of "[- 1, 1]" "[2, 3]" math_erf "''cpu''" True]
      zero_baseline_divides_by_zero [of "[- 1, 1]" "[2, 3]" math_erf "''cpu''" False]
    by (simp add: m)
qed






subsection \<open>The Conclusions section\<close>

lemma conclusions_step_eq:
  assumes "''error'' \<in> dom r \<or> has_keys r"
  shows "conclusions_step (validated, refuted) r =
    Inr (if is_validated r then validated @ [the (r ''metric'')] else validated,
         if is_refuted r then refuted @ [the (r ''metric'')] else refuted)"
proof (cases "''error'' \<in> dom r")
  case True
  then show ?thesis
    by (simp add: conclusions_step_def is_validated_def is_refuted_def)
next
  case False
  with assms have "has_keys r" by simp
  then obtain m s i where k: "r ''metric'' = Some m" "r ''significant'' = Some s"
      "r ''improved'' = Some i"
    by (auto simp: has_keys_def)
  show ?thesis
    using False
    by (simp add: conclusions_step_def is_validated_def is_refuted_def k
        lookup_def bind_res_Inr)
qed

lemma conclusions_loop_eq:
  assumes "\<forall>r\<in>set results. ''error'' \<in> dom r \<or> has_keys r"
  shows "conclusions_loop (validated, refuted) results =
    Inr (validated @ map (\<lambda>r. the (r ''metric'')) (filter is_validated results),
         refuted @ map (\<lambda>r. the (r ''metric'')) (filter is_refuted results))"
  using assms
proof (induction results arbitrary: validated refuted)
  case Nil
  then show ?case by simp
next
  case (Cons r rs)
  then have r: "''error'' \<in> dom r \<or> has_keys r"
    and rs: "\<forall>r\<in>set rs. ''error'' \<in> dom r \<or> has_keys r"
    by simp_all
  show ?case
    by (simp add: conclusions_step_eq [OF r] bind_res_Inr Cons.IH [OF rs])
qed

lemma analyze_metric_has_keys:
  assumes "analyze_metric erf b c name lib = Inr r"
  shows "''error'' \<in> dom r \<or> has_keys r"
proof (cases "b = [] \<or> c = []")
  case True
  from analyze_metric_empty [OF True, of erf name lib] assms show ?thesis
    by auto
next
  case False
  then have ne: "b \<noteq> []" "c \<noteq> []" by simp_all
  from calculate_stats_nonempty [OF ne(1)]
  obtain bs where bs: "calculate_stats b = Inr (Some bs)" by auto
  from calculate_stats_nonempty [OF ne(2)]
  obtain cs where cs: "calculate_stats c = Inr (Some cs)" by auto
  from welch_t_test_total obtain t p where w: "welch_t_test erf b c = Inr (t, p)" by blast
  from cohens_d_total obtain d where d: "cohens_d b c = Inr d" by blast
  show ?thesis
  proof (cases "s_mean bs = 0")
    case True
    from analyze_metric_zero_baseline [OF bs cs True, of erf name lib] assms show ?thesis
      by simp
  next
    case False
    from analyze_metric_eq [OF bs cs False w d, of name lib] assms show ?thesis
      by (auto simp: has_keys_def)
  qed
qed

text \<open>
  Claim C2. The Conclusions section puts the metric of a record in "validated" exactly
  when the record is no error record and is both significant and improved, and in
  "unvalidated" exactly when it is no error record and is not improved, significant or
  not. A record that is improved but not significant goes to neither list, and neither
  does an error record. The records are those the comparator returns
  (\<open>analyze_metric_has_keys\<close>): error records, or records with the keys \<open>metric\<close>,
  \<open>significant\<close> and \<open>improved\<close>.
\<close>

theorem conclusions_partition:
  assumes "\<forall>r\<in>set results. ''error'' \<in> dom r \<or> has_keys r"
  shows "generate_report_conclusions results =
    Inr (map (\<lambda>r. the (r ''metric''))
           (filter (\<lambda>r. ''error'' \<notin> dom r \<and> truthy (the (r ''significant''))
                        \<and> truthy (the (r ''improved''))) results),
         map (\<lambda>r. the (r ''metric''))
           (filter (\<lambda>r. ''error'' \<notin> dom r \<and> \<not> truthy (the (r ''improved''))) results))"
proof -
  have "is_validated = (\<lambda>r. ''error'' \<notin> dom r \<and> truthy (the (r ''significant''))
                        \<and> truthy (the (r ''improved'')))"
    by (intro ext) (simp add: is_validated_def)
  moreover have "is_refuted = (\<lambda>r. ''error'' \<notin> dom r \<and> \<not> truthy (the (r ''improved'')))"
    by (intro ext) (simp add: is_refuted_def)
  ultimately show ?thesis
    using conclusions_loop_eq [OF assms, of "[]" "[]"]
    by (simp add: generate_report_conclusions_def)
qed

theorem conclusions_partition_witness:
  "generate_report_conclusions
     [[''metric'' \<mapsto> PyStr ''A'', ''significant'' \<mapsto> PyBool True, ''improved'' \<mapsto> PyBool True],
      [''metric'' \<mapsto> PyStr ''B'', ''significant'' \<mapsto> PyBool True, ''improved'' \<mapsto> PyBool False],
      [''metric'' \<mapsto> PyStr ''C'', ''significant'' \<mapsto> PyBool False, ''improved'' \<mapsto> PyBool True],
      [''metric'' \<mapsto> PyStr ''D'', ''significant'' \<mapsto> PyBool False, ''improved'' \<mapsto> PyBool False],
      [''metric'' \<mapsto> PyStr ''E'', ''error'' \<mapsto> PyStr ''Insufficient data'']]
   = Inr ([PyStr ''A''], [PyStr ''B'', PyStr ''D''])"
  using conclusions_partition
     [of "[[''metric'' \<mapsto> PyStr ''A'', ''significant'' \<mapsto> PyBool True, ''improved'' \<mapsto> PyBool True],
      [''metric'' \<mapsto> PyStr ''B'', ''significant'' \<mapsto> PyBool True, ''improved'' \<mapsto> PyBool False],
      [''metric'' \<mapsto> PyStr ''C'', ''significant'' \<mapsto> PyBool False, ''improved'' \<mapsto> PyBool True],
      [''metric'' \<mapsto> PyStr ''D'', ''significant'' \<mapsto> PyBool False, ''improved'' \<mapsto> PyBool False],
      [''metric'' \<mapsto> PyStr ''E'', ''error'' \<mapsto> PyStr ''Insufficient data'']]"]
  by (simp add: has_keys_def truthy_def)

end
